theory Spec2Isabelle
  imports Main "HOL-Library.Product_Lexorder" "HOL-Library.Sublist" "HOL-Library.Multiset"
    "HOL-Library.Code_Target_Nat"
begin

section \<open>Python strings\<close>

text \<open>
  A Python \<open>str\<close> is a sequence of Unicode code points, and \<open>len\<close> counts code points.
  The source appends the character U+2026 (horizontal ellipsis), which is no 8-bit
  character, so a string is modelled as a list of code points. ASCII literals of the
  source are written with \<open>ustr\<close>.
\<close>

type_synonym ustring = "nat list"

definition ustr :: "string \<Rightarrow> ustring" where
  "ustr s = map of_char s"

definition ellipsis :: nat where
  "ellipsis = 8230"

text \<open>
  \<open>str.split()\<close> without arguments and \<open>str.strip()\<close> use \<open>str.isspace\<close>: the code points
  U+0009..U+000D, U+001C..U+0020, U+0085, U+00A0, U+1680, U+2000..U+200A, U+2028, U+2029,
  U+202F, U+205F and U+3000.
\<close>

definition is_space :: "nat \<Rightarrow> bool" where
  "is_space c \<longleftrightarrow>
     (9 \<le> c \<and> c \<le> 13) \<or> (28 \<le> c \<and> c \<le> 32) \<or> c = 133 \<or> c = 160 \<or> c = 5760 \<or>
     (8192 \<le> c \<and> c \<le> 8202) \<or> c = 8232 \<or> c = 8233 \<or> c = 8239 \<or> c = 8287 \<or> c = 12288"

text \<open>\<open>s.strip()\<close>: leading and trailing whitespace removed.\<close>

definition strip :: "ustring \<Rightarrow> ustring" where
  "strip s = rev (dropWhile is_space (rev (dropWhile is_space s)))"

text \<open>
  \<open>s.split()\<close>: the maximal runs of non-whitespace characters, in order. The first
  argument is the word being read.
\<close>

fun split_from :: "ustring \<Rightarrow> ustring \<Rightarrow> ustring list" where
  "split_from w [] = (if w = [] then [] else [w])"
| "split_from w (c # cs) =
     (if is_space c then (if w = [] then split_from [] cs else w # split_from [] cs)
      else split_from (w @ [c]) cs)"

definition split :: "ustring \<Rightarrow> ustring list" where
  "split s = split_from [] s"

text \<open>\<open>sep.join(ws)\<close>.\<close>

fun join :: "ustring \<Rightarrow> ustring list \<Rightarrow> ustring" where
  "join sep [] = []"
| "join sep [w] = w"
| "join sep (w # v # ws) = w @ sep @ join sep (v # ws)"

text \<open>
  \<open>s.replace(old, new)\<close>: every non-overlapping occurrence of \<open>old\<close>, found from left to
  right, is replaced by \<open>new\<close>. With an empty \<open>old\<close> Python puts \<open>new\<close> before every
  character and at the end.
\<close>

function replace :: "ustring \<Rightarrow> ustring \<Rightarrow> ustring \<Rightarrow> ustring" where
  "replace old new [] = (if old = [] then new else [])"
| "replace old new (c # cs) =
     (if old = [] then new @ c # replace old new cs
      else if prefix old (c # cs) then new @ replace old new (drop (length old) (c # cs))
      else c # replace old new cs)"
  by pat_completeness auto
termination
  by (relation "measure (\<lambda>(old, new, s). length s)") (auto simp: neq_Nil_conv)

text \<open>
  \<open>re.sub(r"<[^>]+>", "", s)\<close>: the matches are found from left to right and do not
  overlap. At a position holding \<open><\<close> the pattern matches when the next character exists
  and is not \<open>>\<close> and some \<open>>\<close> follows; the match then ends at the first such \<open>>\<close>, since
  \<open>[^>]\<close> cannot pass one. Where it does not match, the character is kept and the search
  goes on at the next position.
\<close>

definition lt_sign :: nat where "lt_sign = 60"
definition gt_sign :: nat where "gt_sign = 62"

function sub_tags :: "ustring \<Rightarrow> ustring" where
  "sub_tags [] = []"
| "sub_tags (c # cs) =
     (if c = lt_sign \<and> cs \<noteq> [] \<and> hd cs \<noteq> gt_sign \<and> gt_sign \<in> set cs
      then sub_tags (tl (dropWhile (\<lambda>x. x \<noteq> gt_sign) cs))
      else c # sub_tags cs)"
  by pat_completeness auto
termination
proof (relation "measure length")
  show "wf (measure length)" by simp
next
  fix c :: nat and cs :: "nat list"
  have "length (tl (dropWhile (\<lambda>x. x \<noteq> gt_sign) cs)) \<le> length cs"
    using length_dropWhile_le [of "\<lambda>x. x \<noteq> gt_sign" cs] by simp
  then show "(tl (dropWhile (\<lambda>x. x \<noteq> gt_sign) cs), c # cs) \<in> measure length"
    by simp
next
  fix c :: nat and cs :: "nat list"
  show "(cs, c # cs) \<in> measure length" by simp
qed

section \<open>The summary normalizer\<close>

text \<open>The five replacements of \<open>_clean_summary\<close>, in the order of the source.\<close>

definition decode_entities :: "ustring \<Rightarrow> ustring" where
  "decode_entities s =
     replace (ustr ''&quot;'') [34]
       (replace (ustr ''&#39;'') [39]
         (replace (ustr ''&gt;'') [62]
           (replace (ustr ''&lt;'') [60]
             (replace (ustr ''&amp;'') [38] s))))"

text \<open>The value of \<open>clean\<close> before the last line of \<open>_clean_summary\<close>.\<close>

definition clean_text :: "ustring \<Rightarrow> ustring" where
  "clean_text raw = join [32] (split (decode_entities (sub_tags raw)))"

definition clean_summary :: "ustring \<Rightarrow> ustring" where
  "clean_summary raw =
     (let clean = clean_text raw
      in if length clean > 280 then take 280 clean @ [ellipsis] else clean)"

section \<open>Timestamps\<close>

text \<open>
  A Python \<open>datetime\<close> holds its calendar components. Every datetime of this program
  carries \<open>tzinfo=timezone.utc\<close>, and two datetimes of one zone are compared as the
  tuples of their components, which \<open>dt_key\<close> gives.
\<close>

datatype error = TypeError | ValueError | OverflowError

record datetime =
  year :: int
  month :: int
  day :: int
  hour :: int
  minute :: int
  second :: int
  microsecond :: int

definition dt_key :: "datetime \<Rightarrow> int \<times> int \<times> int \<times> int \<times> int \<times> int \<times> int" where
  "dt_key t = (year t, month t, day t, hour t, minute t, second t, microsecond t)"

definition is_leap :: "int \<Rightarrow> bool" where
  "is_leap y \<longleftrightarrow> y mod 4 = 0 \<and> (y mod 100 \<noteq> 0 \<or> y mod 400 = 0)"

definition days_in_month :: "int \<Rightarrow> int \<Rightarrow> int" where
  "days_in_month y m =
     (if m = 2 then (if is_leap y then 29 else 28)
      else if m = 4 \<or> m = 6 \<or> m = 9 \<or> m = 11 then 30 else 31)"

definition dt_valid :: "datetime \<Rightarrow> bool" where
  "dt_valid t \<longleftrightarrow>
     1 \<le> year t \<and> year t \<le> 9999 \<and> 1 \<le> month t \<and> month t \<le> 12 \<and>
     1 \<le> day t \<and> day t \<le> days_in_month (year t) (month t) \<and>
     0 \<le> hour t \<and> hour t \<le> 23 \<and> 0 \<le> minute t \<and> minute t \<le> 59 \<and>
     0 \<le> second t \<and> second t \<le> 59 \<and> 0 \<le> microsecond t \<and> microsecond t \<le> 999999"

definition arg_or_zero :: "int list \<Rightarrow> nat \<Rightarrow> int" where
  "arg_or_zero args i = (if i < length args then args ! i else 0)"

text \<open>
  \<open>datetime(*args, tzinfo=timezone.utc)\<close>: year, month and day are required, the later
  components default to zero, and a component out of range raises ValueError. The
  arguments are components of a structured time, so they are machine integers.
\<close>

definition datetime_utc :: "int list \<Rightarrow> error + datetime" where
  "datetime_utc args =
     (if length args < 3 \<or> 7 < length args then Inl TypeError
      else
        let t = \<lparr>year = args ! 0, month = args ! 1, day = args ! 2,
                 hour = arg_or_zero args 3, minute = arg_or_zero args 4,
                 second = arg_or_zero args 5, microsecond = arg_or_zero args 6\<rparr>
        in if dt_valid t then Inr t else Inl ValueError)"

text \<open>\<open>datetime.min.replace(tzinfo=timezone.utc)\<close>.\<close>

definition datetime_min :: datetime where
  "datetime_min =
     \<lparr>year = 1, month = 1, day = 1, hour = 0, minute = 0, second = 0, microsecond = 0\<rparr>"

text \<open>
  Subtracting a \<open>timedelta\<close> goes through the proleptic Gregorian ordinal of the date
  (day 1 is 0001-01-01), as the \<open>datetime\<close> module does, and raises OverflowError when the
  result leaves the years 1 to 9999.
\<close>

definition days_before_year :: "int \<Rightarrow> int" where
  "days_before_year y = (y - 1) * 365 + (y - 1) div 4 - (y - 1) div 100 + (y - 1) div 400"

definition days_before_month :: "int \<Rightarrow> int \<Rightarrow> int" where
  "days_before_month y m =
     [0, 31, 59, 90, 120, 151, 181, 212, 243, 273, 304, 334] ! nat (m - 1)
       + (if 2 < m \<and> is_leap y then 1 else 0)"

definition ymd2ord :: "int \<Rightarrow> int \<Rightarrow> int \<Rightarrow> int" where
  "ymd2ord y m d = days_before_year y + days_before_month y m + d"

definition ord2ymd :: "int \<Rightarrow> int \<times> int \<times> int" where
  "ord2ymd ordinal =
     (let n0 = ordinal - 1;
          n400 = n0 div 146097; n1 = n0 mod 146097;
          n100 = n1 div 36524; n2 = n1 mod 36524;
          n4 = n2 div 1461; n3 = n2 mod 1461;
          n1y = n3 div 365; n = n3 mod 365;
          y = n400 * 400 + 1 + n100 * 100 + n4 * 4 + n1y
      in if n1y = 4 \<or> n100 = 4 then (y - 1, 12, 31)
         else
           let leapyear = (n1y = 3 \<and> (n4 \<noteq> 24 \<or> n100 = 3));
               m = (n + 50) div 32;
               preceding = [0, 31, 59, 90, 120, 151, 181, 212, 243, 273, 304, 334] ! nat (m - 1)
                             + (if 2 < m \<and> leapyear then 1 else 0)
           in if n < preceding
              then (y, m - 1,
                    n - (preceding - ([31, 28, 31, 30, 31, 30, 31, 31, 30, 31, 30, 31] ! nat (m - 2)
                            + (if m - 1 = 2 \<and> leapyear then 1 else 0))) + 1)
              else (y, m, n - preceding + 1))"

definition to_microseconds :: "datetime \<Rightarrow> int" where
  "to_microseconds t =
     (((ymd2ord (year t) (month t) (day t) * 24 + hour t) * 60 + minute t) * 60 + second t)
       * 1000000 + microsecond t"

definition of_microseconds :: "int \<Rightarrow> datetime" where
  "of_microseconds n =
     (let secs = n div 1000000; mins = secs div 60; hours = mins div 60;
          (y, m, d) = ord2ymd (hours div 24)
      in \<lparr>year = y, month = m, day = d, hour = hours mod 24, minute = mins mod 60,
          second = secs mod 60, microsecond = n mod 1000000\<rparr>)"

text \<open>\<open>t - timedelta(hours=h)\<close> for an integer \<open>h\<close>.\<close>

definition minus_hours :: "datetime \<Rightarrow> int \<Rightarrow> error + datetime" where
  "minus_hours t h =
     (let n = to_microseconds t - h * 3600000000;
          ordinal = n div 86400000000
      in if 0 < ordinal \<and> ordinal \<le> 3652059 then Inr (of_microseconds n)
         else Inl OverflowError)"

text \<open>
  \<open>t.strftime("%-I:%M %p \<cdot> %b %-d")\<close> in the C locale: the hour on the 12-hour clock
  and the day without padding, the minute with two digits. Code point 183 is the
  middle dot of the format.
\<close>

definition digit :: "int \<Rightarrow> nat" where
  "digit n = 48 + nat n"

definition decimal :: "int \<Rightarrow> ustring" where
  "decimal n = (if n < 10 then [digit n] else [digit (n div 10), digit (n mod 10)])"

definition month_abbr :: "int \<Rightarrow> ustring" where
  "month_abbr m =
     map ustr [''Jan'', ''Feb'', ''Mar'', ''Apr'', ''May'', ''Jun'', ''Jul'', ''Aug'',
               ''Sep'', ''Oct'', ''Nov'', ''Dec''] ! nat (m - 1)"

definition strftime_digest :: "datetime \<Rightarrow> ustring" where
  "strftime_digest t =
     decimal (if hour t mod 12 = 0 then 12 else hour t mod 12) @ [58]
       @ [digit (minute t div 10), digit (minute t mod 10)] @ [32]
       @ (if hour t < 12 then ustr ''AM'' else ustr ''PM'') @ [32, 183, 32]
       @ month_abbr (month t) @ [32] @ decimal (day t)"

section \<open>Entries and articles\<close>

text \<open>
  A raw entry as the feed parser exposes it: the keys read by the program, each of which
  may be missing. A structured time is the sequence of its integer components.
\<close>

record entry =
  entry_title :: "ustring option"
  entry_link :: "ustring option"
  entry_summary :: "ustring option"
  published_parsed :: "int list option"
  updated_parsed :: "int list option"

record article =
  title :: ustring
  link :: ustring
  summary :: ustring
  published :: "datetime option"
  published_str :: ustring
  source :: ustring
  category :: ustring

text \<open>
  The loop of \<open>parse_published\<close> over the attributes: a missing attribute reads as None,
  and None and the empty sequence are false.
\<close>

fun first_time :: "int list option list \<Rightarrow> error + datetime option" where
  "first_time [] = Inr None"
| "first_time (None # ts) = first_time ts"
| "first_time (Some t # ts) =
     (if t \<noteq> [] then map_sum id Some (datetime_utc (take 6 t)) else first_time ts)"

definition parse_published :: "entry \<Rightarrow> error + datetime option" where
  "parse_published e = first_time [published_parsed e, updated_parsed e]"

definition get_default :: "'a option \<Rightarrow> 'a \<Rightarrow> 'a" where
  "get_default v d = (case v of None \<Rightarrow> d | Some x \<Rightarrow> x)"

text \<open>The dictionary appended by \<open>fetch_feed\<close> for an accepted entry.\<close>

definition make_article :: "ustring \<Rightarrow> ustring \<Rightarrow> entry \<Rightarrow> datetime option \<Rightarrow> article" where
  "make_article nm cat e pub =
     \<lparr>title = strip (get_default (entry_title e) (ustr ''No title'')),
      link = get_default (entry_link e) (ustr ''#''),
      summary = clean_summary (get_default (entry_summary e) []),
      published = pub,
      published_str = (case pub of Some p \<Rightarrow> strftime_digest p | None \<Rightarrow> ustr ''Date unknown''),
      source = nm,
      category = cat\<rparr>"

section \<open>Fetching one feed\<close>

record feed_config =
  url :: ustring
  name :: ustring
  feed_category :: "ustring option"

text \<open>
  What the \<open>try\<close> block of \<open>fetch_feed\<close> produced: an exception of the request, of the
  status check or of the parser, or the entries of the parsed feed.
\<close>

datatype failure = Timeout | ConnectionFailed | BadStatus nat | ParserRaised

datatype retrieval = Failed failure | Parsed "entry list"

text \<open>\<open>pub and pub < cutoff\<close>; a datetime is always true.\<close>

definition too_old :: "datetime \<Rightarrow> datetime option \<Rightarrow> bool" where
  "too_old cutoff pub = (case pub of None \<Rightarrow> False | Some p \<Rightarrow> dt_key p < dt_key cutoff)"

text \<open>\<open>xs[:n]\<close>; a negative \<open>n\<close> counts from the end.\<close>

definition slice_to :: "'a list \<Rightarrow> int \<Rightarrow> 'a list" where
  "slice_to xs n = (if 0 \<le> n then take (nat n) xs else take (length xs - nat (- n)) xs)"

text \<open>The \<open>for\<close> loop of \<open>fetch_feed\<close>; the last argument is \<open>articles\<close>.\<close>

fun scan_entries ::
  "datetime \<Rightarrow> ustring \<Rightarrow> ustring \<Rightarrow> int \<Rightarrow> entry list \<Rightarrow> article list \<Rightarrow> error + article list"
where
  "scan_entries cutoff nm cat max_articles [] articles = Inr articles"
| "scan_entries cutoff nm cat max_articles (e # es) articles =
     (case parse_published e of
        Inl err \<Rightarrow> Inl err
      | Inr pub \<Rightarrow>
          if too_old cutoff pub then scan_entries cutoff nm cat max_articles es articles
          else
            let articles' = articles @ [make_article nm cat e pub]
            in if max_articles \<le> int (length articles') then Inr articles'
               else scan_entries cutoff nm cat max_articles es articles')"

text \<open>
  \<open>fetch_feed\<close>, given what the retrieval produced and the reading of the clock. The
  exceptions raised after the \<open>try\<close> block leave the function.
\<close>

definition fetch_feed ::
  "feed_config \<Rightarrow> int \<Rightarrow> int \<Rightarrow> retrieval \<Rightarrow> datetime \<Rightarrow> error + article list"
where
  "fetch_feed feed_cfg max_age_hours max_articles got now =
     (case got of
        Failed f \<Rightarrow> Inr []
      | Parsed entries \<Rightarrow>
          if entries = [] then Inr []
          else
            (case minus_hours now max_age_hours of
               Inl err \<Rightarrow> Inl err
             | Inr cutoff \<Rightarrow>
                 scan_entries cutoff (name feed_cfg)
                   (get_default (feed_category feed_cfg) (ustr ''General'')) max_articles
                   (slice_to entries (max_articles * 2)) []))"

section \<open>Building the digest\<close>

record settings =
  max_age_hours :: "int option"
  max_articles_per_feed :: "int option"
  site_title :: "ustring option"

text \<open>A dictionary in insertion order; \<open>d.setdefault(k, []).append(v)\<close>.\<close>

fun setdefault_append :: "'k \<Rightarrow> 'v \<Rightarrow> ('k \<times> 'v list) list \<Rightarrow> ('k \<times> 'v list) list" where
  "setdefault_append k v [] = [(k, [v])]"
| "setdefault_append k v ((k', vs) # d) =
     (if k' = k then (k', vs @ [v]) # d else (k', vs) # setdefault_append k v d)"

text \<open>\<open>categories.setdefault(cat, 0); categories[cat] += n\<close>.\<close>

fun tally :: "'k \<Rightarrow> int \<Rightarrow> ('k \<times> int) list \<Rightarrow> ('k \<times> int) list" where
  "tally k n [] = [(k, 0 + n)]"
| "tally k n ((k', c) # d) = (if k' = k then (k', c + n) # d else (k', c) # tally k n d)"

text \<open>
  The first loop of \<open>build_digest\<close>. Each configured feed comes with what its retrieval
  produced and with the clock reading of its call; the state is \<open>all_articles\<close> and
  \<open>categories\<close>.
\<close>

fun collect ::
  "int \<Rightarrow> int \<Rightarrow> (feed_config \<times> retrieval \<times> datetime) list \<Rightarrow>
   article list \<times> (ustring \<times> int) list \<Rightarrow> error + article list \<times> (ustring \<times> int) list"
where
  "collect max_age max_per_feed [] st = Inr st"
| "collect max_age max_per_feed ((feed_cfg, got, now) # rest) (all_articles, categories) =
     (case fetch_feed feed_cfg max_age max_per_feed got now of
        Inl err \<Rightarrow> Inl err
      | Inr articles \<Rightarrow>
          collect max_age max_per_feed rest
            (all_articles @ articles,
             tally (get_default (feed_category feed_cfg) (ustr ''General''))
               (int (length articles)) categories))"

text \<open>\<open>a["published"] or datetime.min.replace(tzinfo=timezone.utc)\<close>.\<close>

definition sort_key_of :: "article \<Rightarrow> int \<times> int \<times> int \<times> int \<times> int \<times> int \<times> int" where
  "sort_key_of a = dt_key (case published a of None \<Rightarrow> datetime_min | Some p \<Rightarrow> p)"

text \<open>
  \<open>all_articles.sort(key=..., reverse=True)\<close>: the list is reversed, sorted by a stable
  ascending sort, and reversed again.
\<close>

definition sort_newest_first :: "article list \<Rightarrow> article list" where
  "sort_newest_first xs = rev (sort_key sort_key_of (rev xs))"

definition group_by_category :: "article list \<Rightarrow> (ustring \<times> article list) list" where
  "group_by_category xs = foldl (\<lambda>grouped a. setdefault_append (category a) a grouped) [] xs"

text \<open>
  The arguments handed to the template. The display string of the local time comes from
  the zone database and the clock, and is an input here; the \<open>timezone\<close> setting is read
  for that string only and is left out of \<open>settings\<close>.
\<close>

record digest =
  digest_title :: ustring
  generated_at :: ustring
  grouped :: "(ustring \<times> article list) list"
  total :: nat
  digest_max_age_hours :: int

definition build_digest ::
  "settings \<Rightarrow> (feed_config \<times> retrieval \<times> datetime) list \<Rightarrow> ustring \<Rightarrow> error + digest"
where
  "build_digest st feeds local_time =
     (let max_age = get_default (max_age_hours st) 24;
          max_per_feed = get_default (max_articles_per_feed st) 10
      in case collect max_age max_per_feed feeds ([], []) of
           Inl err \<Rightarrow> Inl err
         | Inr (all_articles, categories) \<Rightarrow>
             let sorted_articles = sort_newest_first all_articles
             in Inr \<lparr>digest_title = get_default (site_title st) (ustr ''Daily Digest''),
                     generated_at = local_time,
                     grouped = group_by_category sorted_articles,
                     total = length sorted_articles,
                     digest_max_age_hours = max_age\<rparr>)"

section \<open>The entity decoding as the specification words it\<close>

text \<open>
  The specification describes the decoding as one pass over the input: each of the five
  entities found in the input is replaced by its character, and nothing else is changed.
  This function follows those words; it is compared with \<open>decode_entities\<close> below.
\<close>

fun spec_decode_entities :: "ustring \<Rightarrow> ustring" where
  "spec_decode_entities [] = []"
| "spec_decode_entities (c # cs) =
     (if prefix (ustr ''&amp;'') (c # cs) then 38 # spec_decode_entities (drop 4 cs)
      else if prefix (ustr ''&lt;'') (c # cs) then 60 # spec_decode_entities (drop 3 cs)
      else if prefix (ustr ''&gt;'') (c # cs) then 62 # spec_decode_entities (drop 3 cs)
      else if prefix (ustr ''&#39;'') (c # cs) then 39 # spec_decode_entities (drop 4 cs)
      else if prefix (ustr ''&quot;'') (c # cs) then 34 # spec_decode_entities (drop 5 cs)
      else c # spec_decode_entities cs)"

section \<open>Notions used in the statements\<close>

text \<open>
  The timestamp of an entry when \<open>parse_published\<close> returns one, the article that
  \<open>fetch_feed\<close> builds from an entry, and the test that the age filter lets an entry pass.
\<close>

definition pub_of :: "entry \<Rightarrow> datetime option" where
  "pub_of e = (case parse_published e of Inl err \<Rightarrow> None | Inr pub \<Rightarrow> pub)"

definition article_of :: "ustring \<Rightarrow> ustring \<Rightarrow> entry \<Rightarrow> article" where
  "article_of nm cat e = make_article nm cat e (pub_of e)"

definition accepted :: "datetime \<Rightarrow> entry \<Rightarrow> bool" where
  "accepted cutoff e \<longleftrightarrow> \<not> too_old cutoff (pub_of e)"

definition category_of :: "feed_config \<Rightarrow> ustring" where
  "category_of feed_cfg = get_default (feed_category feed_cfg) (ustr ''General'')"

text \<open>The articles that the first loop of \<open>build_digest\<close> collects, without the tally.\<close>

definition collected ::
  "settings \<Rightarrow> (feed_config \<times> retrieval \<times> datetime) list \<Rightarrow> error + article list"
where
  "collected st feeds =
     map_sum id fst
       (collect (get_default (max_age_hours st) 24) (get_default (max_articles_per_feed st) 10)
          feeds ([], []))"

section \<open>Example inputs\<close>

text \<open>Three entries: one with both structured times, one with \<open>updated\<close> only, one undated.\<close>

definition entry_dated :: entry where
  "entry_dated =
     \<lparr>entry_title = Some (ustr ''Dated''), entry_link = None, entry_summary = None,
      published_parsed = Some [2026, 11, 3, 22, 15, 30, 1, 307, 0],
      updated_parsed = Some [2026, 11, 4, 0, 0, 0, 2, 308, 0]\<rparr>"

definition entry_updated :: entry where
  "entry_updated =
     \<lparr>entry_title = Some (ustr ''Updated''), entry_link = None, entry_summary = None,
      published_parsed = None,
      updated_parsed = Some [2026, 11, 4, 0, 5, 0, 2, 308, 0]\<rparr>"

definition entry_undated :: entry where
  "entry_undated =
     \<lparr>entry_title = Some (ustr ''Undated''), entry_link = None, entry_summary = None,
      published_parsed = None, updated_parsed = None\<rparr>"

text \<open>A feed of category Tech, a clock reading, and entries with an empty and a padded title.\<close>

definition feed_tech :: feed_config where
  "feed_tech =
     \<lparr>url = ustr ''https://a.example/feed'', name = ustr ''A'',
      feed_category = Some (ustr ''Tech'')\<rparr>"

definition clock_reading :: datetime where
  "clock_reading =
     \<lparr>year = 2026, month = 11, day = 4, hour = 1, minute = 30, second = 0,
      microsecond = 250000\<rparr>"

definition entry_blank :: entry where
  "entry_blank =
     \<lparr>entry_title = Some [], entry_link = Some [], entry_summary = Some (ustr ''text''),
      published_parsed = None, updated_parsed = None\<rparr>"

definition entry_padded :: entry where
  "entry_padded =
     \<lparr>entry_title = Some (ustr '' Hi ''), entry_link = None, entry_summary = None,
      published_parsed = None, updated_parsed = None\<rparr>"

definition entry_stale :: entry where
  "entry_stale =
     \<lparr>entry_title = Some (ustr ''Stale''), entry_link = None, entry_summary = None,
      published_parsed = Some [2026, 11, 2, 8, 0, 0, 0, 306, 0], updated_parsed = None\<rparr>"

definition feed_news :: feed_config where
  "feed_news =
     \<lparr>url = ustr ''https://b.example/rss'', name = ustr ''B'',
      feed_category = Some (ustr ''News'')\<rparr>"

definition default_settings :: settings where
  "default_settings =
     \<lparr>max_age_hours = None, max_articles_per_feed = None, site_title = None\<rparr>"

text \<open>
  The scenario of the specification: feed A (Tech) with articles at T, T - 1h and T - 3h,
  feed B (News) with one article at T - 2h and one undated, where T is 2026-11-04 01:00.
\<close>

definition dated_entry :: "string \<Rightarrow> int list \<Rightarrow> entry" where
  "dated_entry t stamp =
     \<lparr>entry_title = Some (ustr t), entry_link = None, entry_summary = None,
      published_parsed = Some stamp, updated_parsed = None\<rparr>"

definition scenario_a :: "entry list" where
  "scenario_a =
     [dated_entry ''a1'' [2026, 11, 4, 1, 0, 0, 2, 308, 0],
      dated_entry ''a2'' [2026, 11, 4, 0, 0, 0, 2, 308, 0],
      dated_entry ''a3'' [2026, 11, 3, 22, 0, 0, 1, 307, 0]]"

definition scenario_b :: "entry list" where
  "scenario_b = [dated_entry ''b1'' [2026, 11, 3, 23, 0, 0, 1, 307, 0], entry_undated]"

definition scenario :: "(feed_config \<times> retrieval \<times> datetime) list" where
  "scenario =
     [(feed_tech, Parsed scenario_a, clock_reading),
      (feed_news, Parsed scenario_b, clock_reading)]"

definition tech :: "entry \<Rightarrow> article" where
  "tech e = article_of (ustr ''A'') (ustr ''Tech'') e"

definition news :: "entry \<Rightarrow> article" where
  "news e = article_of (ustr ''B'') (ustr ''News'') e"

text \<open>A list with equal sort keys: two articles of one timestamp and two undated ones.\<close>

definition with_ties :: "article list" where
  "with_ties =
     [news entry_undated,
      tech (dated_entry ''x'' [2026, 11, 3, 22, 0, 0, 1, 307, 0]),
      tech entry_blank,
      tech (dated_entry ''a1'' [2026, 11, 4, 1, 0, 0, 2, 308, 0]),
      news (dated_entry ''y'' [2026, 11, 3, 22, 0, 0, 1, 307, 0])]"


section \<open>Properties of the summary normalizer\<close>

lemmas summary_defs =
  clean_summary_def clean_text_def decode_entities_def split_def ustr_def is_space_def
  lt_sign_def gt_sign_def ellipsis_def

lemma sub_tags_plain: "lt_sign \<notin> set s \<Longrightarrow> sub_tags s = s"
  by (induction s) auto

lemma replace_absent: "old \<noteq> [] \<Longrightarrow> hd old \<notin> set s \<Longrightarrow> replace old new s = s"
proof (induction s)
  case Nil
  then show ?case by simp
next
  case (Cons c cs)
  then have "\<not> prefix old (c # cs)"
    by (cases old) auto
  with Cons show ?case by simp
qed

lemma decode_entities_plain: "38 \<notin> set s \<Longrightarrow> decode_entities s = s"
  by (simp add: decode_entities_def ustr_def replace_absent)

lemma split_from_plain:
  "\<forall>c\<in>set s. \<not> is_space c \<Longrightarrow> split_from w s = (if w @ s = [] then [] else [w @ s])"
  by (induction s arbitrary: w) auto

lemma clean_text_plain:
  assumes "\<forall>c\<in>set s. c \<noteq> 60 \<and> c \<noteq> 38 \<and> \<not> is_space c"
  shows "clean_text s = s"
proof -
  from assms have "lt_sign \<notin> set s" and "38 \<notin> set s" and "\<forall>c\<in>set s. \<not> is_space c"
    by (auto simp: lt_sign_def)
  then show ?thesis
    by (simp add: clean_text_def sub_tags_plain decode_entities_plain split_def split_from_plain)
qed

text \<open>
  C6: when the normalized text is longer than 280 characters, the summary is its first
  280 characters followed by one ellipsis character, 281 characters in all; otherwise it
  is the normalized text unchanged. So a summary has at most 280 characters, or exactly
  281 of which the last is the ellipsis.
\<close>

theorem clean_summary_truncation:
  "(280 < length (clean_text raw) \<longrightarrow>
      clean_summary raw = take 280 (clean_text raw) @ [ellipsis] \<and>
      length (clean_summary raw) = 281) \<and>
   (length (clean_text raw) \<le> 280 \<longrightarrow> clean_summary raw = clean_text raw) \<and>
   (length (clean_summary raw) \<le> 280 \<or>
      length (clean_summary raw) = 281 \<and> last (clean_summary raw) = ellipsis)"
  by (simp add: clean_summary_def Let_def)

theorem clean_summary_truncation_witness:
  "280 < length (clean_text (replicate 400 97)) \<and>
   clean_summary (replicate 400 97) = replicate 280 97 @ [ellipsis] \<and>
   length (clean_summary (replicate 400 97)) = 281 \<and>
   length (clean_text (replicate 50 97)) \<le> 280 \<and>
   clean_summary (replicate 50 97) = replicate 50 97"
proof -
  have plain: "clean_text (replicate n 97) = replicate n 97" for n
    by (rule clean_text_plain) (simp add: is_space_def)
  show ?thesis
    using clean_summary_truncation [of "replicate 400 97"]
      clean_summary_truncation [of "replicate 50 97"]
    by (simp add: plain)
qed

text \<open>
  C8: the claim is that exactly the five entities of the input are decoded. On the input
  \<open>&amp;lt;b&amp;gt;\<close> the source's chain of replacements decodes twice: the first pass
  turns \<open>&amp;\<close> into \<open>&\<close>, and the later passes decode the \<open>&lt;\<close> and \<open>&gt;\<close> that
  this produced, where one pass over the input gives \<open>&lt;b&gt;\<close>. The example of the
  specification is computed as stated.
\<close>

theorem decode_entities_double:
  "decode_entities (ustr ''&amp;lt;b&amp;gt;'') = ustr ''<b>'' \<and>
   spec_decode_entities (ustr ''&amp;lt;b&amp;gt;'') = ustr ''&lt;b&gt;'' \<and>
   clean_summary (ustr ''&amp;lt;b&amp;gt;'') = ustr ''<b>'' \<and>
   clean_summary (ustr ''A &amp; B &lt;tag&gt;'') = ustr ''A & B <tag>''"
  by (simp add: summary_defs)

section \<open>Properties of \<open>parse_published\<close>\<close>

text \<open>
  C9: the timestamp of an entry comes from \<open>published_parsed\<close> when that is present and
  not empty, otherwise from \<open>updated_parsed\<close> when that is present and not empty, and is
  absent otherwise. When present it is the UTC datetime built from the first six
  components of the structured time; for valid components the result holds exactly
  those six, with microsecond zero.
\<close>

theorem parse_published_order:
  "(published_parsed e = Some t \<and> t \<noteq> [] \<longrightarrow>
      parse_published e = map_sum id Some (datetime_utc (take 6 t))) \<and>
   ((published_parsed e = None \<or> published_parsed e = Some []) \<and>
    updated_parsed e = Some u \<and> u \<noteq> [] \<longrightarrow>
      parse_published e = map_sum id Some (datetime_utc (take 6 u))) \<and>
   ((published_parsed e = None \<or> published_parsed e = Some []) \<and>
    (updated_parsed e = None \<or> updated_parsed e = Some []) \<longrightarrow>
      parse_published e = Inr None) \<and>
   (dt_valid \<lparr>year = y, month = mo, day = d, hour = h, minute = mi, second = s,
              microsecond = 0\<rparr> \<longrightarrow>
      datetime_utc (take 6 (y # mo # d # h # mi # s # rest)) =
        Inr \<lparr>year = y, month = mo, day = d, hour = h, minute = mi, second = s,
             microsecond = 0\<rparr>)"
  by (auto simp: parse_published_def datetime_utc_def arg_or_zero_def Let_def)

theorem parse_published_order_witness:
  "parse_published entry_dated =
     Inr (Some \<lparr>year = 2026, month = 11, day = 3, hour = 22, minute = 15, second = 30,
                microsecond = 0\<rparr>) \<and>
   parse_published entry_updated =
     Inr (Some \<lparr>year = 2026, month = 11, day = 4, hour = 0, minute = 5, second = 0,
                microsecond = 0\<rparr>) \<and>
   parse_published entry_undated = Inr None"
  using parse_published_order [of entry_dated "[2026, 11, 3, 22, 15, 30, 1, 307, 0]" _
      2026 11 3 22 15 30 "[1, 307, 0]"]
    parse_published_order [of entry_updated _ "[2026, 11, 4, 0, 5, 0, 2, 308, 0]"
      2026 11 4 0 5 0 "[2, 308, 0]"]
    parse_published_order [of entry_undated]
  by (simp add: entry_dated_def entry_updated_def entry_undated_def dt_valid_def
      days_in_month_def is_leap_def)

section \<open>Properties of \<open>fetch_feed\<close>\<close>

text \<open>
  The loop returns the first \<open>max_articles\<close> accepted entries of the entries it is given,
  in their order, as long as no entry before the end of the scan raises.
\<close>

lemma scan_entries_closed:
  "scan_entries c nm cat m es acc = Inr arts \<Longrightarrow> int (length acc) < m \<Longrightarrow>
   arts = take (nat m) (acc @ map (article_of nm cat) (filter (accepted c) es))"
proof (induction es arbitrary: acc)
  case Nil
  then show ?case by simp
next
  case (Cons e es)
  from Cons.prems(1) obtain pub where pub: "parse_published e = Inr pub"
    by (cases "parse_published e") auto
  then have pub_of: "pub_of e = pub"
    by (simp add: pub_of_def)
  show ?case
  proof (cases "too_old c pub")
    case True
    then have "\<not> accepted c e"
      using pub_of by (simp add: accepted_def)
    with Cons pub True show ?thesis
      by simp
  next
    case False
    let ?acc = "acc @ [make_article nm cat e pub]"
    have new: "article_of nm cat e = make_article nm cat e pub" "accepted c e"
      using False pub_of by (simp_all add: article_of_def accepted_def)
    show ?thesis
    proof (cases "m \<le> int (length ?acc)")
      case True
      with Cons.prems pub False have "arts = ?acc" and "nat m = length ?acc"
        by (auto simp: Let_def)
      with new show ?thesis
        by simp
    next
      case le: False
      with Cons.prems pub False have "scan_entries c nm cat m es ?acc = Inr arts"
        by (simp add: Let_def)
      moreover from le have "int (length ?acc) < m" by simp
      ultimately have "arts = take (nat m) (?acc @ map (article_of nm cat) (filter (accepted c) es))"
        by (rule Cons.IH)
      with new show ?thesis
        by simp
    qed
  qed
qed

lemma scan_entries_from:
  "scan_entries c nm cat m es acc = Inr arts \<Longrightarrow> a \<in> set arts \<Longrightarrow>
   a \<in> set acc \<or> (\<exists>e\<in>set es. a = article_of nm cat e \<and> accepted c e)"
proof (induction es arbitrary: acc)
  case Nil
  then show ?case by simp
next
  case (Cons e es)
  from Cons.prems(1) obtain pub where pub: "parse_published e = Inr pub"
    by (cases "parse_published e") auto
  then have pub_of: "pub_of e = pub"
    by (simp add: pub_of_def)
  show ?case
  proof (cases "too_old c pub")
    case True
    with Cons.prems pub have "scan_entries c nm cat m es acc = Inr arts"
      by simp
    from Cons.IH [OF this Cons.prems(2)] show ?thesis by auto
  next
    case False
    let ?acc = "acc @ [make_article nm cat e pub]"
    have new: "make_article nm cat e pub = article_of nm cat e" "accepted c e"
      using False pub_of by (simp_all add: article_of_def accepted_def)
    show ?thesis
    proof (cases "m \<le> int (length ?acc)")
      case True
      with Cons.prems pub False have "arts = ?acc"
        by (auto simp: Let_def)
      with Cons.prems(2) new show ?thesis by auto
    next
      case le: False
      with Cons.prems pub False have "scan_entries c nm cat m es ?acc = Inr arts"
        by (simp add: Let_def)
      from Cons.IH [OF this Cons.prems(2)] new show ?thesis by auto
    qed
  qed
qed

lemma set_slice_to: "set (slice_to xs n) \<subseteq> set xs"
  by (auto simp: slice_to_def dest: in_set_takeD)

lemma fetch_feed_cases:
  assumes "fetch_feed feed_cfg h m (Parsed es) now = Inr arts"
  shows "es = [] \<and> arts = [] \<or>
         (\<exists>c. es \<noteq> [] \<and> minus_hours now h = Inr c \<and>
              scan_entries c (name feed_cfg) (category_of feed_cfg) m
                (slice_to es (m * 2)) [] = Inr arts)"
  using assms
  by (auto simp: fetch_feed_def category_of_def split: if_splits sum.splits)

lemma fetch_feed_closed:
  assumes "fetch_feed feed_cfg h m (Parsed es) now = Inr arts" and "es \<noteq> []" and "0 < m"
  shows "\<exists>c. minus_hours now h = Inr c \<and>
           arts = take (nat m) (map (article_of (name feed_cfg) (category_of feed_cfg))
                    (filter (accepted c) (take (nat (2 * m)) es)))"
proof -
  from fetch_feed_cases [OF assms(1)] assms(2) obtain c where
    c: "minus_hours now h = Inr c" and
    scan: "scan_entries c (name feed_cfg) (category_of feed_cfg) m (slice_to es (m * 2)) []
             = Inr arts"
    by auto
  from assms(3) have "slice_to es (m * 2) = take (nat (2 * m)) es"
    by (simp add: slice_to_def mult.commute)
  with scan_entries_closed [OF scan] assms(3) c show ?thesis
    by simp
qed

text \<open>
  \<open>fetch_feed\<close> returns when the cutoff is in range and every entry has an absent or a
  valid structured time.
\<close>

lemma scan_entries_returns:
  "\<forall>e\<in>set es. \<exists>pub. parse_published e = Inr pub \<Longrightarrow>
   \<exists>arts. scan_entries c nm cat m es acc = Inr arts"
proof (induction es arbitrary: acc)
  case Nil
  show ?case by simp
next
  case (Cons e es)
  from Cons.prems obtain pub where pub: "parse_published e = Inr pub"
    by auto
  from Cons.prems have rest: "\<forall>e\<in>set es. \<exists>pub. parse_published e = Inr pub"
    by simp
  show ?case
  proof (cases "too_old c pub")
    case True
    with pub Cons.IH [OF rest, of acc] show ?thesis
      by simp
  next
    case False
    with pub Cons.IH [OF rest, of "acc @ [make_article nm cat e pub]"] show ?thesis
      by (simp add: Let_def)
  qed
qed

lemma fetch_feed_returns:
  assumes "minus_hours now h = Inr c" and "\<forall>e\<in>set es. \<exists>pub. parse_published e = Inr pub"
  shows "\<exists>arts. fetch_feed feed_cfg h m (Parsed es) now = Inr arts"
proof (cases "es = []")
  case True
  then show ?thesis
    by (simp add: fetch_feed_def)
next
  case False
  from assms(2) set_slice_to [of es "m * 2"] have
    "\<forall>e\<in>set (slice_to es (m * 2)). \<exists>pub. parse_published e = Inr pub"
    by blast
  from scan_entries_returns [OF this] False assms(1) show ?thesis
    by (simp add: fetch_feed_def)
qed

lemma published_article_of: "published (article_of nm cat e) = pub_of e"
  by (simp add: article_of_def make_article_def)

lemma accepted_iff:
  "accepted c e \<longleftrightarrow> (case pub_of e of None \<Rightarrow> True | Some p \<Rightarrow> dt_key c \<le> dt_key p)"
  by (auto simp: accepted_def too_old_def split: option.splits)

text \<open>
  C3: the cutoff is the clock reading minus \<open>max_age_hours\<close>, computed once before the
  scan. Every returned article with a timestamp has it at or after the cutoff. For a
  positive limit the result is the first \<open>max_articles\<close> of the scanned entries that are
  undated or not older than the cutoff: an older entry is skipped and does not count
  toward the limit, and an undated entry is never removed by the age filter.
\<close>

theorem fetch_feed_age_filter:
  assumes "fetch_feed feed_cfg h m (Parsed es) now = Inr arts" and "es \<noteq> []"
  shows "\<exists>cutoff. minus_hours now h = Inr cutoff \<and>
           (\<forall>a\<in>set arts. \<forall>p. published a = Some p \<longrightarrow> dt_key cutoff \<le> dt_key p) \<and>
           (0 < m \<longrightarrow>
              arts = take (nat m) (map (article_of (name feed_cfg) (category_of feed_cfg))
                (filter (\<lambda>e. case pub_of e of None \<Rightarrow> True
                          | Some p \<Rightarrow> dt_key cutoff \<le> dt_key p)
                  (take (nat (2 * m)) es))))"
proof -
  from fetch_feed_cases [OF assms(1)] assms(2) obtain c where
    c: "minus_hours now h = Inr c" and
    scan: "scan_entries c (name feed_cfg) (category_of feed_cfg) m (slice_to es (m * 2)) []
             = Inr arts"
    by auto
  have "dt_key c \<le> dt_key p" if "a \<in> set arts" and "published a = Some p" for a p
  proof -
    from scan_entries_from [OF scan that(1)] obtain e where
      "a = article_of (name feed_cfg) (category_of feed_cfg) e" and "accepted c e"
      by auto
    with that(2) show ?thesis
      by (simp add: published_article_of accepted_iff)
  qed
  moreover have "arts = take (nat m) (map (article_of (name feed_cfg) (category_of feed_cfg))
      (filter (\<lambda>e. case pub_of e of None \<Rightarrow> True | Some p \<Rightarrow> dt_key c \<le> dt_key p)
        (take (nat (2 * m)) es)))" if "0 < m"
  proof -
    from fetch_feed_closed [OF assms that] c have
      "arts = take (nat m) (map (article_of (name feed_cfg) (category_of feed_cfg))
         (filter (accepted c) (take (nat (2 * m)) es)))"
      by simp
    moreover have "accepted c = (\<lambda>e. case pub_of e of None \<Rightarrow> True
        | Some p \<Rightarrow> dt_key c \<le> dt_key p)"
      by (rule ext) (rule accepted_iff)
    ultimately show ?thesis by simp
  qed
  ultimately show ?thesis
    using c by blast
qed

lemma fetch_example:
  "fetch_feed feed_tech 24 2 (Parsed [entry_stale, entry_dated, entry_undated, entry_updated])
     clock_reading =
   Inr [\<lparr>title = ustr ''Dated'', link = ustr ''#'', summary = [],
         published = Some \<lparr>year = 2026, month = 11, day = 3, hour = 22, minute = 15,
                           second = 30, microsecond = 0\<rparr>,
         published_str = ustr ''10:15 PM '' @ [183] @ ustr '' Nov 3'',
         source = ustr ''A'', category = ustr ''Tech''\<rparr>,
        \<lparr>title = ustr ''Undated'', link = ustr ''#'', summary = [],
         published = None, published_str = ustr ''Date unknown'',
         source = ustr ''A'', category = ustr ''Tech''\<rparr>]"
  by code_simp

lemma cutoff_example:
  "minus_hours clock_reading 24 =
     Inr \<lparr>year = 2026, month = 11, day = 3, hour = 1, minute = 30, second = 0,
          microsecond = 250000\<rparr>"
  by code_simp

theorem fetch_feed_age_filter_witness:
  "fetch_feed feed_tech 24 2 (Parsed [entry_stale, entry_dated, entry_undated, entry_updated])
     clock_reading =
   Inr (map (article_of (name feed_tech) (category_of feed_tech)) [entry_dated, entry_undated]) \<and>
   minus_hours clock_reading 24 =
     Inr \<lparr>year = 2026, month = 11, day = 3, hour = 1, minute = 30, second = 0,
          microsecond = 250000\<rparr> \<and>
   pub_of entry_stale = Some \<lparr>year = 2026, month = 11, day = 2, hour = 8, minute = 0,
          second = 0, microsecond = 0\<rparr> \<and>
   pub_of entry_undated = None"
proof -
  have arts: "map (article_of (name feed_tech) (category_of feed_tech)) [entry_dated, entry_undated]
    = [\<lparr>title = ustr ''Dated'', link = ustr ''#'', summary = [],
         published = Some \<lparr>year = 2026, month = 11, day = 3, hour = 22, minute = 15,
                           second = 30, microsecond = 0\<rparr>,
         published_str = ustr ''10:15 PM '' @ [183] @ ustr '' Nov 3'',
         source = ustr ''A'', category = ustr ''Tech''\<rparr>,
        \<lparr>title = ustr ''Undated'', link = ustr ''#'', summary = [],
         published = None, published_str = ustr ''Date unknown'',
         source = ustr ''A'', category = ustr ''Tech''\<rparr>]"
    by code_simp
  have stale: "pub_of entry_stale = Some \<lparr>year = 2026, month = 11, day = 2, hour = 8,
      minute = 0, second = 0, microsecond = 0\<rparr>"
    by code_simp
  have undated: "pub_of entry_undated = None"
    by code_simp
  have ne: "[entry_stale, entry_dated, entry_undated, entry_updated] \<noteq> []"
    by simp
  from fetch_feed_age_filter [OF fetch_example ne] show ?thesis
    using fetch_example arts cutoff_example stale undated by simp
qed

lemma subseq_take: "subseq (take n xs) xs"
  by (metis append_take_drop_id prefix_imp_subseq prefixI)

text \<open>
  C4: for a positive \<open>max_articles\<close>, the result has at most \<open>max_articles\<close> articles; it
  depends on the first \<open>2 * max_articles\<close> raw entries only; it is built from a subsequence
  of those entries, so the upstream order is kept; and it is the first \<open>max_articles\<close> of
  the accepted entries among them, so nothing is accepted once the limit is reached.
\<close>

theorem fetch_feed_cap:
  assumes "0 < m" and "fetch_feed feed_cfg h m (Parsed es) now = Inr arts"
  shows "int (length arts) \<le> m \<and>
         (\<forall>es'. take (nat (2 * m)) es' = take (nat (2 * m)) es \<longrightarrow>
                fetch_feed feed_cfg h m (Parsed es') now = Inr arts) \<and>
         (\<exists>kept. subseq kept (take (nat (2 * m)) es) \<and>
                arts = map (article_of (name feed_cfg) (category_of feed_cfg)) kept) \<and>
         (es \<noteq> [] \<longrightarrow>
            (\<exists>c. minus_hours now h = Inr c \<and>
               arts = take (nat m) (map (article_of (name feed_cfg) (category_of feed_cfg))
                 (filter (accepted c) (take (nat (2 * m)) es)))))"
proof (cases "es = []")
  case True
  with assms have "arts = []"
    by (simp add: fetch_feed_def)
  moreover have "fetch_feed feed_cfg h m (Parsed es') now = Inr []"
    if "take (nat (2 * m)) es' = take (nat (2 * m)) es" for es'
  proof -
    from that True assms(1) have "es' = []" by simp
    then show ?thesis by (simp add: fetch_feed_def)
  qed
  ultimately show ?thesis
    using True assms(1) by auto
next
  case False
  let ?window = "take (nat (2 * m)) es"
  let ?art = "article_of (name feed_cfg) (category_of feed_cfg)"
  from fetch_feed_cases [OF assms(2)] False obtain c where
    c: "minus_hours now h = Inr c" and
    scan: "scan_entries c (name feed_cfg) (category_of feed_cfg) m (slice_to es (m * 2)) []
             = Inr arts"
    by auto
  from fetch_feed_closed [OF assms(2) False assms(1)] c have
    closed: "arts = take (nat m) (map ?art (filter (accepted c) ?window))"
    by simp
  then have len: "int (length arts) \<le> m"
    using assms(1) by simp
  have slice: "slice_to xs (m * 2) = take (nat (2 * m)) xs" for xs :: "entry list"
    using assms(1) by (simp add: slice_to_def mult.commute)
  have same: "fetch_feed feed_cfg h m (Parsed es') now = Inr arts"
    if eq: "take (nat (2 * m)) es' = ?window" for es'
  proof -
    from False assms(1) have "?window \<noteq> []" by simp
    with eq have "es' \<noteq> []" by auto
    with c scan eq show ?thesis
      by (simp add: fetch_feed_def category_of_def slice)
  qed
  have "arts = map ?art (take (nat m) (filter (accepted c) ?window))"
    using closed by (simp add: take_map)
  moreover have "subseq (take (nat m) (filter (accepted c) ?window)) ?window"
    by (rule subseq_order.order_trans [OF subseq_take subseq_filter_left])
  ultimately have kept: "\<exists>kept. subseq kept ?window \<and> arts = map ?art kept"
    by blast
  from len same kept c closed show ?thesis
    by blast
qed

theorem fetch_feed_cap_witness:
  "(0::int) < 2 \<and>
   fetch_feed feed_tech 24 2 (Parsed [entry_stale, entry_dated, entry_undated, entry_updated])
     clock_reading =
   Inr (map (article_of (name feed_tech) (category_of feed_tech)) [entry_dated, entry_undated]) \<and>
   fetch_feed feed_tech 24 1
     (Parsed [entry_stale, entry_dated, entry_undated, entry_updated]) clock_reading =
   fetch_feed feed_tech 24 1 (Parsed [entry_stale, entry_dated]) clock_reading"
proof -
  have two: "(0::int) < 2" and one: "(0::int) < 1"
    by simp_all
  have run2: "fetch_feed feed_tech 24 2
      (Parsed [entry_stale, entry_dated, entry_undated, entry_updated]) clock_reading =
    Inr (map (article_of (name feed_tech) (category_of feed_tech)) [entry_dated, entry_undated])"
    by code_simp
  have run1: "fetch_feed feed_tech 24 1
      (Parsed [entry_stale, entry_dated, entry_undated, entry_updated]) clock_reading =
    Inr (map (article_of (name feed_tech) (category_of feed_tech)) [entry_dated])"
    by code_simp
  from fetch_feed_cap [OF one run1] have
    "fetch_feed feed_tech 24 1 (Parsed [entry_stale, entry_dated]) clock_reading =
     Inr (map (article_of (name feed_tech) (category_of feed_tech)) [entry_dated])"
    by simp
  with fetch_feed_cap [OF two run2] run1 run2 show ?thesis
    by simp
qed

lemma strip_no_title: "strip (ustr ''No title'') = ustr ''No title''"
  by code_simp

lemma title_article_of:
  "title (article_of nm cat e) =
     (case entry_title e of None \<Rightarrow> ustr ''No title'' | Some t \<Rightarrow> strip t)"
  by (cases "entry_title e")
    (simp_all add: article_of_def make_article_def get_default_def strip_no_title)

lemma link_article_of:
  "link (article_of nm cat e) = (case entry_link e of None \<Rightarrow> ustr ''#'' | Some l \<Rightarrow> l)"
  by (cases "entry_link e") (simp_all add: article_of_def make_article_def get_default_def)

text \<open>
  C7, as stated, fails. The source supplies the defaults with \<open>entry.get(key, default)\<close>,
  which applies to a missing key only: an entry whose title and link are present and empty
  keeps the empty title and the empty link. The title is also stripped, so a padded title
  is not used as it is.
\<close>

theorem fetch_feed_title_link_counterexample:
  "fetch_feed feed_tech 24 10 (Parsed [entry_blank, entry_padded]) clock_reading =
     Inr [\<lparr>title = [], link = [], summary = ustr ''text'', published = None,
           published_str = ustr ''Date unknown'', source = ustr ''A'',
           category = ustr ''Tech''\<rparr>,
          \<lparr>title = ustr ''Hi'', link = ustr ''#'', summary = [], published = None,
           published_str = ustr ''Date unknown'', source = ustr ''A'',
           category = ustr ''Tech''\<rparr>] \<and>
   entry_title entry_blank = Some [] \<and> entry_link entry_blank = Some [] \<and>
   [] \<noteq> ustr ''No title'' \<and> [] \<noteq> ustr ''#'' \<and>
   entry_title entry_padded = Some (ustr '' Hi '') \<and> ustr ''Hi'' \<noteq> ustr '' Hi ''"
  by code_simp

text \<open>
  C7, as amended: the title of a parsed article is "No title" when the entry has no title
  field, and otherwise the entry's title with leading and trailing whitespace removed; its
  link is "#" when the entry has no link field, and otherwise the entry's own link.
\<close>

theorem fetch_feed_title_link:
  assumes "fetch_feed feed_cfg h m (Parsed es) now = Inr arts" and "a \<in> set arts"
  shows "\<exists>e\<in>set es.
           title a = (case entry_title e of None \<Rightarrow> ustr ''No title'' | Some t \<Rightarrow> strip t) \<and>
           link a = (case entry_link e of None \<Rightarrow> ustr ''#'' | Some l \<Rightarrow> l)"
proof -
  from assms(2) have "arts \<noteq> []"
    by (cases arts) simp_all
  with fetch_feed_cases [OF assms(1)] have
    "es \<noteq> [] \<and>
     (\<exists>c. minus_hours now h = Inr c \<and>
        scan_entries c (name feed_cfg) (category_of feed_cfg) m (slice_to es (m * 2)) []
          = Inr arts)"
    by simp
  then have
    "\<exists>c. minus_hours now h = Inr c \<and>
        scan_entries c (name feed_cfg) (category_of feed_cfg) m (slice_to es (m * 2)) []
          = Inr arts"
    by (rule conjunct2)
  then obtain c where
    "minus_hours now h = Inr c \<and>
       scan_entries c (name feed_cfg) (category_of feed_cfg) m (slice_to es (m * 2)) []
         = Inr arts" ..
  then have
    scan: "scan_entries c (name feed_cfg) (category_of feed_cfg) m (slice_to es (m * 2)) []
             = Inr arts"
    by (rule conjunct2)
  from scan_entries_from [OF scan assms(2)] have
    "\<exists>e\<in>set (slice_to es (m * 2)).
       a = article_of (name feed_cfg) (category_of feed_cfg) e \<and> accepted c e"
    by simp
  then obtain e where
    e: "e \<in> set (slice_to es (m * 2))" and
    ae: "a = article_of (name feed_cfg) (category_of feed_cfg) e \<and> accepted c e" ..
  from ae have a: "a = article_of (name feed_cfg) (category_of feed_cfg) e"
    by (rule conjunct1)
  from e have e_in: "e \<in> set es"
    by (rule subsetD [OF set_slice_to])
  show ?thesis
  proof (rule bexI [OF _ e_in], rule conjI)
    show "title a = (case entry_title e of None \<Rightarrow> ustr ''No title'' | Some t \<Rightarrow> strip t)"
      unfolding a by (rule title_article_of)
    show "link a = (case entry_link e of None \<Rightarrow> ustr ''#'' | Some l \<Rightarrow> l)"
      unfolding a by (rule link_article_of)
  qed
qed

theorem fetch_feed_title_link_witness:
  "fetch_feed feed_tech 24 10 (Parsed [entry_padded]) clock_reading =
     Inr [article_of (name feed_tech) (category_of feed_tech) entry_padded] \<and>
   title (article_of (name feed_tech) (category_of feed_tech) entry_padded) = ustr ''Hi'' \<and>
   link (article_of (name feed_tech) (category_of feed_tech) entry_padded) = ustr ''#''"
proof -
  have run: "fetch_feed feed_tech 24 10 (Parsed [entry_padded]) clock_reading =
     Inr [article_of (name feed_tech) (category_of feed_tech) entry_padded]"
    by code_simp
  have "article_of (name feed_tech) (category_of feed_tech) entry_padded
          \<in> set [article_of (name feed_tech) (category_of feed_tech) entry_padded]"
    by simp
  from fetch_feed_title_link [OF run this] have
    "title (article_of (name feed_tech) (category_of feed_tech) entry_padded) =
       (case entry_title entry_padded of None \<Rightarrow> ustr ''No title'' | Some t \<Rightarrow> strip t) \<and>
     link (article_of (name feed_tech) (category_of feed_tech) entry_padded) =
       (case entry_link entry_padded of None \<Rightarrow> ustr ''#'' | Some l \<Rightarrow> l)"
    by simp
  moreover have "strip (ustr '' Hi '') = ustr ''Hi''"
    by code_simp
  ultimately show ?thesis
    using run by (simp add: entry_padded_def)
qed

section \<open>Properties of \<open>build_digest\<close>\<close>

lemma collect_tally_irrelevant:
  "map_sum id fst (collect h m fs (all, cats)) = map_sum id fst (collect h m fs (all, cats'))"
proof (induction fs arbitrary: all cats cats')
  case Nil
  show ?case by simp
next
  case (Cons f fs)
  obtain feed_cfg got now where f: "f = (feed_cfg, got, now)"
    by (cases f)
  show ?case
  proof (cases "fetch_feed feed_cfg h m got now")
    case (Inl err)
    with f show ?thesis by simp
  next
    case (Inr arts)
    have step: "collect h m (f # fs) (all, cs) =
        collect h m fs (all @ arts,
          tally (get_default (feed_category feed_cfg) (ustr ''General''))
            (int (length arts)) cs)" for cs
      using f Inr by simp
    show ?thesis
      unfolding step by (rule Cons.IH)
  qed
qed

lemma collect_append:
  "collect h m (xs @ ys) st =
     (case collect h m xs st of Inl err \<Rightarrow> Inl err | Inr st' \<Rightarrow> collect h m ys st')"
proof (induction xs arbitrary: st)
  case Nil
  show ?case by simp
next
  case (Cons f fs)
  obtain feed_cfg got now where f: "f = (feed_cfg, got, now)"
    by (cases f)
  obtain all cats where st: "st = (all, cats)"
    by (cases st)
  show ?case
  proof (cases "fetch_feed feed_cfg h m got now")
    case (Inl err)
    with f st show ?thesis by simp
  next
    case (Inr arts)
    with f st show ?thesis
      by (simp add: Cons.IH)
  qed
qed

lemma collect_skip:
  assumes "fetch_feed feed_cfg h m got now = Inr []"
  shows "map_sum id fst (collect h m (xs @ (feed_cfg, got, now) # ys) st) =
         map_sum id fst (collect h m (xs @ ys) st)"
proof (cases "collect h m xs st")
  case (Inl err)
  then show ?thesis
    by (simp add: collect_append)
next
  case (Inr st')
  obtain all cats where st': "st' = (all, cats)"
    by (cases st')
  have "map_sum id fst (collect h m ((feed_cfg, got, now) # ys) (all, cats)) =
        map_sum id fst (collect h m ys (all, cats))"
    using assms collect_tally_irrelevant [of h m ys all _ cats] by simp
  with Inr st' show ?thesis
    by (simp add: collect_append)
qed

lemma build_digest_collected:
  "build_digest st feeds lt =
     (case collected st feeds of
        Inl err \<Rightarrow> Inl err
      | Inr all_articles \<Rightarrow>
          Inr \<lparr>digest_title = get_default (site_title st) (ustr ''Daily Digest''),
               generated_at = lt,
               grouped = group_by_category (sort_newest_first all_articles),
               total = length (sort_newest_first all_articles),
               digest_max_age_hours = get_default (max_age_hours st) 24\<rparr>)"
proof (cases "collect (get_default (max_age_hours st) 24)
    (get_default (max_articles_per_feed st) 10) feeds ([], [])")
  case (Inl err)
  then show ?thesis
    by (simp add: build_digest_def collected_def)
next
  case (Inr st')
  obtain all cats where "st' = (all, cats)"
    by (cases st')
  with Inr show ?thesis
    by (simp add: build_digest_def collected_def Let_def)
qed

text \<open>
  C2: when the retrieval fails (a timeout, a connection error, a non-success status or an
  exception of the parser) or the parse yields no entries, \<open>fetch_feed\<close> returns the empty
  list and raises nothing, and the digest of the run is the one built without that feed.
\<close>

theorem fetch_feed_failure_isolated:
  assumes "got = Failed f \<or> got = Parsed []"
  shows "fetch_feed feed_cfg h m got now = Inr [] \<and>
         build_digest st (before @ (feed_cfg, got, now) # after) lt =
           build_digest st (before @ after) lt"
proof -
  from assms have empty: "fetch_feed feed_cfg h' m' got now = Inr []" for h' m'
    by (rule disjE) (simp_all add: fetch_feed_def)
  have "collected st (before @ (feed_cfg, got, now) # after) = collected st (before @ after)"
    unfolding collected_def by (rule collect_skip) (rule empty)
  with empty show ?thesis
    by (simp add: build_digest_collected)
qed

theorem fetch_feed_failure_isolated_witness:
  "fetch_feed feed_tech 24 10 (Failed Timeout) clock_reading = Inr [] \<and>
   build_digest default_settings
     [(feed_tech, Failed Timeout, clock_reading), (feed_news, Parsed scenario_b, clock_reading)]
     (ustr ''now'') =
   build_digest default_settings [(feed_news, Parsed scenario_b, clock_reading)] (ustr ''now'') \<and>
   map_sum id total
     (build_digest default_settings
       [(feed_tech, Failed Timeout, clock_reading),
        (feed_news, Parsed scenario_b, clock_reading)] (ustr ''now'')) = Inr 2"
proof -
  have "Failed Timeout = Failed Timeout \<or> Failed Timeout = Parsed []"
    by simp
  from fetch_feed_failure_isolated [OF this, of feed_tech 24 10 clock_reading
      default_settings "[]" "[(feed_news, Parsed scenario_b, clock_reading)]" "ustr ''now''"]
  have "fetch_feed feed_tech 24 10 (Failed Timeout) clock_reading = Inr [] \<and>
    build_digest default_settings
      [(feed_tech, Failed Timeout, clock_reading), (feed_news, Parsed scenario_b, clock_reading)]
      (ustr ''now'') =
    build_digest default_settings [(feed_news, Parsed scenario_b, clock_reading)] (ustr ''now'')"
    by simp
  moreover have "map_sum id total
     (build_digest default_settings [(feed_news, Parsed scenario_b, clock_reading)]
        (ustr ''now'')) = Inr 2"
    by code_simp
  ultimately show ?thesis by simp
qed

lemma sort_newest_first_sorted:
  "sorted_wrt (\<lambda>a b. sort_key_of b \<le> sort_key_of a) (sort_newest_first xs)"
proof -
  have "sorted (map sort_key_of (sort_key sort_key_of (rev xs)))"
    by (rule sorted_sort_key)
  then have "sorted_wrt (\<lambda>a b. sort_key_of a \<le> sort_key_of b) (sort_key sort_key_of (rev xs))"
    by (simp add: sorted_wrt_map)
  then show ?thesis
    by (simp add: sort_newest_first_def sorted_wrt_rev)
qed

lemma sort_newest_first_stable:
  "filter (\<lambda>a. sort_key_of a = k) (sort_newest_first xs) = filter (\<lambda>a. sort_key_of a = k) xs"
proof -
  have "filter (\<lambda>a. sort_key_of a = k) (sort_newest_first xs) =
        rev (filter (\<lambda>a. sort_key_of a = k) (sort_key sort_key_of (rev xs)))"
    by (simp add: sort_newest_first_def rev_filter)
  also have "\<dots> = rev (filter (\<lambda>a. sort_key_of a = k) (rev xs))"
    by (simp only: sort_key_stable)
  also have "\<dots> = filter (\<lambda>a. sort_key_of a = k) xs"
    by (simp add: rev_filter)
  finally show ?thesis .
qed

lemma mset_sort_newest_first: "mset (sort_newest_first xs) = mset xs"
  by (simp add: sort_newest_first_def)

lemma datetime_min_least: "dt_valid p \<Longrightarrow> dt_key datetime_min \<le> dt_key p"
  by (auto simp: dt_valid_def dt_key_def datetime_min_def)

text \<open>
  C1: after the sort every article's key is at least the key of each later article, in
  particular of the next one; the key of an article is its timestamp, and the minimum
  datetime when the timestamp is absent, which no valid timestamp is below. Articles of
  equal keys keep the order they had before the sort, and the sort permutes the list.
\<close>

theorem sort_newest_first_stable_descending:
  "sorted_wrt (\<lambda>a b. sort_key_of b \<le> sort_key_of a) (sort_newest_first xs) \<and>
   (\<forall>i. Suc i < length (sort_newest_first xs) \<longrightarrow>
      sort_key_of (sort_newest_first xs ! Suc i) \<le> sort_key_of (sort_newest_first xs ! i)) \<and>
   (\<forall>k. filter (\<lambda>a. sort_key_of a = k) (sort_newest_first xs) =
        filter (\<lambda>a. sort_key_of a = k) xs) \<and>
   mset (sort_newest_first xs) = mset xs \<and>
   (\<forall>a. published a = None \<longrightarrow> sort_key_of a = dt_key datetime_min) \<and>
   (\<forall>a p. published a = Some p \<longrightarrow> sort_key_of a = dt_key p) \<and>
   (\<forall>p. dt_valid p \<longrightarrow> dt_key datetime_min \<le> dt_key p)"
proof (intro conjI allI impI)
  show "sorted_wrt (\<lambda>a b. sort_key_of b \<le> sort_key_of a) (sort_newest_first xs)"
    by (rule sort_newest_first_sorted)
next
  fix i assume "Suc i < length (sort_newest_first xs)"
  with sort_newest_first_sorted [of xs]
  show "sort_key_of (sort_newest_first xs ! Suc i) \<le> sort_key_of (sort_newest_first xs ! i)"
    by (simp add: sorted_wrt_iff_nth_less)
next
  fix k
  show "filter (\<lambda>a. sort_key_of a = k) (sort_newest_first xs) =
        filter (\<lambda>a. sort_key_of a = k) xs"
    by (rule sort_newest_first_stable)
next
  show "mset (sort_newest_first xs) = mset xs"
    by (rule mset_sort_newest_first)
next
  fix a :: article assume "published a = None"
  then show "sort_key_of a = dt_key datetime_min"
    by (simp add: sort_key_of_def)
next
  fix a :: article and p assume "published a = Some p"
  then show "sort_key_of a = dt_key p"
    by (simp add: sort_key_of_def)
next
  fix p assume "dt_valid p"
  then show "dt_key datetime_min \<le> dt_key p"
    by (rule datetime_min_least)
qed

lemma scenario_sorted:
  "sort_newest_first (map tech scenario_a @ map news scenario_b) =
     [tech (scenario_a ! 0), tech (scenario_a ! 1), news (scenario_b ! 0),
      tech (scenario_a ! 2), news (scenario_b ! 1)]"
  by code_simp

lemma with_ties_sorted:
  "sort_newest_first with_ties =
     [with_ties ! 3, with_ties ! 1, with_ties ! 4, with_ties ! 0, with_ties ! 2]"
  by code_simp

theorem sort_newest_first_stable_descending_witness:
  "sort_newest_first (map tech scenario_a @ map news scenario_b) =
     [tech (scenario_a ! 0), tech (scenario_a ! 1), news (scenario_b ! 0),
      tech (scenario_a ! 2), news (scenario_b ! 1)] \<and>
   sort_newest_first with_ties =
     [with_ties ! 3, with_ties ! 1, with_ties ! 4, with_ties ! 0, with_ties ! 2] \<and>
   sort_key_of (with_ties ! 1) = sort_key_of (with_ties ! 4) \<and>
   published (with_ties ! 0) = None \<and> published (with_ties ! 2) = None \<and>
   sort_key_of (with_ties ! 0) = dt_key datetime_min \<and>
   published (with_ties ! 1) =
     Some \<lparr>year = 2026, month = 11, day = 3, hour = 22, minute = 0, second = 0,
            microsecond = 0\<rparr> \<and>
   sort_key_of (with_ties ! 1) = (2026, 11, 3, 22, 0, 0, 0) \<and>
   dt_valid \<lparr>year = 2026, month = 11, day = 3, hour = 22, minute = 0, second = 0,
             microsecond = 0\<rparr> \<and>
   dt_key datetime_min \<le> (2026, 11, 3, 22, 0, 0, 0) \<and>
   Suc 0 < length (sort_newest_first with_ties) \<and>
   sort_key_of (sort_newest_first with_ties ! Suc 0) \<le> sort_key_of (sort_newest_first with_ties ! 0)"
proof -
  let ?p = "\<lparr>year = 2026, month = 11, day = 3, hour = 22, minute = 0, second = 0,
             microsecond = 0\<rparr>"
  have keys: "sort_key_of (with_ties ! 1) = sort_key_of (with_ties ! 4)"
    by code_simp
  have undated: "published (with_ties ! 0) = None" "published (with_ties ! 2) = None"
    by code_simp+
  have dated: "published (with_ties ! 1) = Some ?p"
    by code_simp
  have valid: "dt_valid ?p"
    by code_simp
  have key: "dt_key ?p = (2026, 11, 3, 22, 0, 0, 0)"
    by (simp add: dt_key_def)
  have len: "Suc 0 < length (sort_newest_first with_ties)"
    by (simp add: with_ties_sorted)
  note inst = sort_newest_first_stable_descending [of with_ties]
  from inst undated(1) have "sort_key_of (with_ties ! 0) = dt_key datetime_min"
    by blast
  moreover from inst dated have "sort_key_of (with_ties ! 1) = dt_key ?p"
    by blast
  moreover from inst valid have "dt_key datetime_min \<le> dt_key ?p"
    by blast
  moreover from inst len have
    "sort_key_of (sort_newest_first with_ties ! Suc 0) \<le> sort_key_of (sort_newest_first with_ties ! 0)"
    by blast
  ultimately show ?thesis
    using scenario_sorted with_ties_sorted keys undated dated valid key len by simp
qed

lemma map_of_setdefault_append:
  "map_of (setdefault_append k v d) k' =
     (if k' = k then Some ((case map_of d k of None \<Rightarrow> [] | Some vs \<Rightarrow> vs) @ [v])
      else map_of d k')"
  by (induction d) auto

lemma keys_setdefault_append:
  "fst ` set (setdefault_append k v d) = insert k (fst ` set d)"
proof (induction d)
  case Nil
  show ?case by simp
next
  case (Cons kv d)
  obtain k' vs where kv: "kv = (k', vs)"
    by (cases kv)
  show ?case
  proof (cases "k' = k")
    case True
    with kv show ?thesis by simp
  next
    case False
    with kv Cons.IH show ?thesis
      by (simp add: insert_commute)
  qed
qed

lemma distinct_setdefault_append:
  "distinct (map fst d) \<Longrightarrow> distinct (map fst (setdefault_append k v d))"
proof (induction d)
  case Nil
  show ?case by simp
next
  case (Cons kv d)
  obtain k' vs where kv: "kv = (k', vs)"
    by (cases kv)
  show ?case
  proof (cases "k' = k")
    case True
    with Cons.prems kv show ?thesis by simp
  next
    case False
    from Cons.prems have "distinct (map fst d)" by simp
    then have "distinct (map fst (setdefault_append k v d))"
      by (rule Cons.IH)
    moreover from Cons.prems kv False have "k' \<notin> fst ` set (setdefault_append k v d)"
      by (simp add: keys_setdefault_append)
    ultimately show ?thesis
      using kv False by simp
  qed
qed

lemma mset_setdefault_append:
  "mset (concat (map snd (setdefault_append k v d))) = add_mset v (mset (concat (map snd d)))"
  by (induction d) auto

lemma filter_other_category:
  "c \<notin> category ` set xs \<Longrightarrow> filter (\<lambda>a. category a = c) xs = []"
  by (auto simp: filter_empty_conv)

lemma map_of_group_from:
  "map_of (foldl (\<lambda>grouped a. setdefault_append (category a) a grouped) g xs) c =
     (if c \<in> category ` set xs
      then Some ((case map_of g c of None \<Rightarrow> [] | Some vs \<Rightarrow> vs) @
                 filter (\<lambda>a. category a = c) xs)
      else map_of g c)"
proof (induction xs arbitrary: g)
  case Nil
  show ?case by simp
next
  case (Cons a xs)
  show ?case
  proof (cases "category a = c")
    case True
    then show ?thesis
      by (simp add: Cons.IH map_of_setdefault_append filter_other_category)
  next
    case False
    then have "map_of (setdefault_append (category a) a g) c = map_of g c"
      by (simp add: map_of_setdefault_append)
    with False show ?thesis
      by (auto simp: Cons.IH)
  qed
qed

lemma distinct_group_from:
  "distinct (map fst g) \<Longrightarrow>
   distinct (map fst (foldl (\<lambda>grouped a. setdefault_append (category a) a grouped) g xs))"
  by (induction xs arbitrary: g) (simp_all add: distinct_setdefault_append)

lemma mset_group_from:
  "mset (concat (map snd (foldl (\<lambda>grouped a. setdefault_append (category a) a grouped) g xs))) =
   mset (concat (map snd g)) + mset xs"
  by (induction xs arbitrary: g) (simp_all add: mset_setdefault_append)

lemma map_of_group:
  "map_of (group_by_category xs) c =
     (if c \<in> category ` set xs then Some (filter (\<lambda>a. category a = c) xs) else None)"
  by (simp add: group_by_category_def map_of_group_from)

lemma distinct_group: "distinct (map fst (group_by_category xs))"
  by (simp add: group_by_category_def distinct_group_from)

lemma mset_group: "mset (concat (map snd (group_by_category xs))) = mset xs"
  by (simp add: group_by_category_def mset_group_from)

lemma bucket_of_group:
  assumes "(c, b) \<in> set (group_by_category xs)"
  shows "b = filter (\<lambda>a. category a = c) xs \<and> b \<noteq> []"
proof -
  from assms distinct_group have "map_of (group_by_category xs) c = Some b"
    by (rule map_of_is_SomeI [rotated])
  then have in_cats: "c \<in> category ` set xs" and b: "b = filter (\<lambda>a. category a = c) xs"
    by (simp_all add: map_of_group split: if_splits)
  from in_cats obtain a where "a \<in> set xs" and "category a = c"
    by (rule imageE) simp
  then have "filter (\<lambda>a. category a = c) xs \<noteq> []"
    by (auto simp: filter_empty_conv)
  with b show ?thesis by simp
qed

text \<open>
  C5: the grouping maps each category that occurs to the articles of that category, in
  the order of the sequence it is given, and has no other bucket; each category is the key
  of one bucket only.
\<close>

theorem group_by_category_buckets:
  "map_of (group_by_category xs) c =
     (if c \<in> category ` set xs then Some (filter (\<lambda>a. category a = c) xs) else None) \<and>
   distinct (map fst (group_by_category xs)) \<and>
   (\<forall>b. (c, b) \<in> set (group_by_category xs) \<longleftrightarrow>
        b = filter (\<lambda>a. category a = c) xs \<and> b \<noteq> [])"
proof -
  have "(c, b) \<in> set (group_by_category xs) \<longleftrightarrow>
        b = filter (\<lambda>a. category a = c) xs \<and> b \<noteq> []" for b
  proof
    assume "(c, b) \<in> set (group_by_category xs)"
    then show "b = filter (\<lambda>a. category a = c) xs \<and> b \<noteq> []"
      by (rule bucket_of_group)
  next
    assume "b = filter (\<lambda>a. category a = c) xs \<and> b \<noteq> []"
    then have b: "b = filter (\<lambda>a. category a = c) xs" and "b \<noteq> []"
      by (rule conjunct1, rule conjunct2)
    then have "filter (\<lambda>a. category a = c) xs \<noteq> []"
      by (rule subst)
    with filter_other_category [of c xs] have "c \<in> category ` set xs"
      by blast
    then have "map_of (group_by_category xs) c = Some b"
      unfolding b by (simp add: map_of_group)
    then show "(c, b) \<in> set (group_by_category xs)"
      by (rule map_of_SomeD)
  qed
  with map_of_group [of xs c] distinct_group [of xs] show ?thesis
    by simp
qed

theorem group_by_category_buckets_witness:
  "map_of (group_by_category
     [tech (scenario_a ! 0), tech (scenario_a ! 1), news (scenario_b ! 0),
      tech (scenario_a ! 2), news (scenario_b ! 1)]) (ustr ''Tech'') =
     Some [tech (scenario_a ! 0), tech (scenario_a ! 1), tech (scenario_a ! 2)] \<and>
   map_of (group_by_category
     [tech (scenario_a ! 0), tech (scenario_a ! 1), news (scenario_b ! 0),
      tech (scenario_a ! 2), news (scenario_b ! 1)]) (ustr ''News'') =
     Some [news (scenario_b ! 0), news (scenario_b ! 1)] \<and>
   map_of (group_by_category
     [tech (scenario_a ! 0), tech (scenario_a ! 1), news (scenario_b ! 0),
      tech (scenario_a ! 2), news (scenario_b ! 1)]) (ustr ''General'') = None"
proof -
  let ?xs = "[tech (scenario_a ! 0), tech (scenario_a ! 1), news (scenario_b ! 0),
      tech (scenario_a ! 2), news (scenario_b ! 1)]"
  have tech_bucket: "filter (\<lambda>a. category a = ustr ''Tech'') ?xs =
      [tech (scenario_a ! 0), tech (scenario_a ! 1), tech (scenario_a ! 2)]"
    by code_simp
  have news_bucket: "filter (\<lambda>a. category a = ustr ''News'') ?xs =
      [news (scenario_b ! 0), news (scenario_b ! 1)]"
    by code_simp
  have cats: "category ` set ?xs = {ustr ''Tech'', ustr ''News''}"
    by (auto simp: tech_def news_def article_of_def make_article_def)
  have distinct_cats: "ustr ''General'' \<noteq> ustr ''Tech''" "ustr ''General'' \<noteq> ustr ''News''"
    by (simp_all add: ustr_def)
  from group_by_category_buckets [of ?xs "ustr ''Tech''"]
    group_by_category_buckets [of ?xs "ustr ''News''"]
    group_by_category_buckets [of ?xs "ustr ''General''"]
  show ?thesis
    unfolding cats tech_bucket news_bucket using distinct_cats by simp
qed

lemma bucket_in_group:
  assumes "a \<in> set xs"
  shows "(category a, filter (\<lambda>x. category x = category a) xs) \<in> set (group_by_category xs)"
proof -
  from assms have "category a \<in> category ` set xs"
    by (rule imageI)
  then have "map_of (group_by_category xs) (category a) =
      Some (filter (\<lambda>x. category x = category a) xs)"
    by (simp add: map_of_group)
  then show ?thesis
    by (rule map_of_SomeD)
qed

lemma sum_bucket_lengths:
  "sum_list (map (\<lambda>(c, b). length b) g) = length (concat (map snd g))"
  by (induction g) auto

lemma set_sort_newest_first: "set (sort_newest_first xs) = set xs"
  by (simp add: sort_newest_first_def)

lemma length_sort_newest_first: "length (sort_newest_first xs) = length xs"
  by (simp add: sort_newest_first_def)

text \<open>
  C10: in the digest of a run the buckets together hold the collected articles, each as
  often as it was collected; the keys are distinct and every article of a bucket has the
  bucket's key as its category, so each collected article is in the bucket of its own
  category and in no other; the total is the sum of the bucket lengths.
\<close>

theorem build_digest_partition:
  assumes "build_digest st feeds lt = Inr d"
  shows "\<exists>all_articles. collected st feeds = Inr all_articles \<and>
           mset (concat (map snd (grouped d))) = mset all_articles \<and>
           distinct (map fst (grouped d)) \<and>
           (\<forall>c b a. (c, b) \<in> set (grouped d) \<and> a \<in> set b \<longrightarrow> category a = c) \<and>
           (\<forall>a\<in>set all_articles. \<exists>b. (category a, b) \<in> set (grouped d) \<and> a \<in> set b) \<and>
           total d = sum_list (map (\<lambda>(c, b). length b) (grouped d)) \<and>
           total d = length all_articles"
proof (cases "collected st feeds")
  case (Inl err)
  with assms show ?thesis
    by (simp add: build_digest_collected)
next
  case (Inr all_articles)
  let ?sorted = "sort_newest_first all_articles"
  from assms Inr have g: "grouped d = group_by_category ?sorted" and
    t: "total d = length ?sorted"
    by (auto simp: build_digest_collected)
  have part: "mset (concat (map snd (grouped d))) = mset all_articles"
    unfolding g by (simp add: mset_group mset_sort_newest_first)
  have keys: "distinct (map fst (grouped d))"
    unfolding g by (rule distinct_group)
  have own: "category a = c" if "(c, b) \<in> set (grouped d) \<and> a \<in> set b" for c b a
  proof -
    from that have "(c, b) \<in> set (group_by_category ?sorted)" and a: "a \<in> set b"
      unfolding g by (rule conjunct1, rule conjunct2)
    then have "b = filter (\<lambda>a. category a = c) ?sorted"
      using bucket_of_group by blast
    with a show ?thesis by simp
  qed
  have found: "\<exists>b. (category a, b) \<in> set (grouped d) \<and> a \<in> set b"
    if "a \<in> set all_articles" for a
  proof -
    from that have a: "a \<in> set ?sorted"
      by (simp add: set_sort_newest_first)
    then have "(category a, filter (\<lambda>x. category x = category a) ?sorted) \<in> set (grouped d)"
      unfolding g by (rule bucket_in_group)
    moreover from a have "a \<in> set (filter (\<lambda>x. category x = category a) ?sorted)"
      by simp
    ultimately show ?thesis by blast
  qed
  have len: "total d = length all_articles"
    unfolding t by (rule length_sort_newest_first)
  have "sum_list (map (\<lambda>(c, b). length b) (grouped d)) = size (mset (concat (map snd (grouped d))))"
    by (simp add: sum_bucket_lengths)
  also have "\<dots> = length all_articles"
    unfolding part by simp
  finally have sum: "total d = sum_list (map (\<lambda>(c, b). length b) (grouped d))"
    using len by simp
  from Inr part keys own found sum len show ?thesis
    by blast
qed

lemma scenario_digest:
  "build_digest default_settings scenario (ustr ''now'') =
     Inr \<lparr>digest_title = ustr ''Daily Digest'', generated_at = ustr ''now'',
          grouped =
            [(ustr ''Tech'',
              [tech (scenario_a ! 0), tech (scenario_a ! 1), tech (scenario_a ! 2)]),
             (ustr ''News'', [news (scenario_b ! 0), news (scenario_b ! 1)])],
          total = 5, digest_max_age_hours = 24\<rparr>"
  by code_simp

theorem build_digest_partition_witness:
  "build_digest default_settings scenario (ustr ''now'') =
     Inr \<lparr>digest_title = ustr ''Daily Digest'', generated_at = ustr ''now'',
          grouped =
            [(ustr ''Tech'',
              [tech (scenario_a ! 0), tech (scenario_a ! 1), tech (scenario_a ! 2)]),
             (ustr ''News'', [news (scenario_b ! 0), news (scenario_b ! 1)])],
          total = 5, digest_max_age_hours = 24\<rparr> \<and>
   collected default_settings scenario = Inr (map tech scenario_a @ map news scenario_b) \<and>
   (5::nat) = length [tech (scenario_a ! 0), tech (scenario_a ! 1), tech (scenario_a ! 2)] +
     length [news (scenario_b ! 0), news (scenario_b ! 1)]"
proof -
  have all: "collected default_settings scenario = Inr (map tech scenario_a @ map news scenario_b)"
    by code_simp
  from build_digest_partition [OF scenario_digest] all show ?thesis
    using scenario_digest by simp
qed

end
